theory Spec2Isabelle
  imports Complex_Main
begin

unbundle bit_operations_syntax

section \<open>Conventions\<close>

text \<open>
  The development embeds \<^verbatim>\<open>graph_score.py\<close>. Python integers are \<open>int\<close>,
  Python floats (durations, keypoint sizes and coordinates) are exact \<open>real\<close>
  numbers: rounding and the non-finite floats are outside the embedding, with the one
  exception of the \<open>nan\<close> that \<^verbatim>\<open>np.mean\<close> returns on an empty list, which is a
  value of its own. Every exception the modelled lines can raise is a value of
  \<open>py_error\<close>.
\<close>

datatype py_error = IndexError | ZeroDivisionError | TypeError | Cv2Error

text \<open>\<^verbatim>\<open>xs[i]\<close> on a Python list: a negative index counts from the end.\<close>

definition list_getitem :: "'a list \<Rightarrow> int \<Rightarrow> py_error + 'a" where
  "list_getitem xs i =
     (if 0 \<le> i \<and> i < int (length xs) then Inr (xs ! nat i)
      else if - int (length xs) \<le> i \<and> i < 0 then Inr (xs ! nat (i + int (length xs)))
      else Inl IndexError)"

section \<open>Page Store: class ScoreManager\<close>

text \<open>What \<^verbatim>\<open>np.mean\<close> returns: a number, or \<open>nan\<close> on an empty list.\<close>

datatype np_float = NaN | Val real

text \<open>The dictionary cached per page (the two raster copies are not tracked).\<close>

record analysis_data =
  cached_contrast :: real
  cached_object_count :: nat
  cached_proximity :: np_float

record score_manager =
  scores :: "(string \<times> real) list"
  current_index :: int
  analyzed_pages :: "int \<rightharpoonup> analysis_data"
  auto_scanning :: bool

definition init_manager :: score_manager where
  "init_manager =
     \<lparr>scores = [], current_index = 0, analyzed_pages = Map.empty, auto_scanning = False\<rparr>"

text \<open>\<^verbatim>\<open>add_score\<close>: the duration is already a float, \<^verbatim>\<open>float(duration)\<close> returns it.\<close>

definition add_score :: "score_manager \<Rightarrow> string \<Rightarrow> real \<Rightarrow> score_manager" where
  "add_score s path duration = s\<lparr>scores := scores s @ [(path, duration)]\<rparr>"

definition remove_score :: "score_manager \<Rightarrow> int \<Rightarrow> score_manager" where
  "remove_score s index =
     (if 0 \<le> index \<and> index < int (length (scores s))
      then s\<lparr>scores := take (nat index) (scores s) @ drop (Suc (nat index)) (scores s),
             analyzed_pages := (analyzed_pages s)(index := None)\<rparr>
      else s)"

text \<open>
  \<^verbatim>\<open>get_current_score\<close>: \<open>Inr None\<close> is the pair \<^verbatim>\<open>(None, None)\<close>; the list access
  raises when the index is out of range.
\<close>

definition get_current_score :: "score_manager \<Rightarrow> py_error + (string \<times> real) option" where
  "get_current_score s =
     (if scores s = [] then Inr None
      else (case list_getitem (scores s) (current_index s) of
              Inl e \<Rightarrow> Inl e
            | Inr page \<Rightarrow> Inr (Some page)))"

text \<open>\<^verbatim>\<open>sum\<close> adds from the left, starting at 0.\<close>

definition get_total_duration :: "score_manager \<Rightarrow> real" where
  "get_total_duration s = foldl (+) 0 (map snd (scores s))"

definition store_analysis :: "score_manager \<Rightarrow> int \<Rightarrow> analysis_data \<Rightarrow> score_manager" where
  "store_analysis s index a = s\<lparr>analyzed_pages := (analyzed_pages s)(index \<mapsto> a)\<rparr>"

definition get_analysis :: "score_manager \<Rightarrow> int \<Rightarrow> analysis_data option" where
  "get_analysis s index = analyzed_pages s index"

definition has_next_score :: "score_manager \<Rightarrow> bool" where
  "has_next_score s =
     (int (length (scores s)) > 1 \<and> current_index s < int (length (scores s)) - 1)"

definition next_score ::
  "score_manager \<Rightarrow> (py_error + (string \<times> real) option) \<times> score_manager" where
  "next_score s =
     (if scores s \<noteq> []
      then (let s' = s\<lparr>current_index := (current_index s + 1) mod int (length (scores s))\<rparr>
            in (get_current_score s', s'))
      else (Inr None, s))"

definition previous_score ::
  "score_manager \<Rightarrow> (py_error + (string \<times> real) option) \<times> score_manager" where
  "previous_score s =
     (if scores s \<noteq> []
      then (let s' = s\<lparr>current_index := (current_index s - 1) mod int (length (scores s))\<rparr>
            in (get_current_score s', s'))
      else (Inr None, s))"

text \<open>A sequence of Page Store operations, as the shell and the session issue them.\<close>

datatype store_op = Add string real | Remove int | Next | Previous

fun apply_op :: "score_manager \<Rightarrow> store_op \<Rightarrow> score_manager" where
  "apply_op s (Add path duration) = add_score s path duration"
| "apply_op s (Remove index) = remove_score s index"
| "apply_op s Next = snd (next_score s)"
| "apply_op s Previous = snd (previous_score s)"

definition apply_ops :: "score_manager \<Rightarrow> store_op list \<Rightarrow> score_manager" where
  "apply_ops s ops = foldl apply_op s ops"

text \<open>The invariant of the data model: a non-empty store has a valid cursor.\<close>

definition index_valid :: "score_manager \<Rightarrow> bool" where
  "index_valid s = (0 \<le> current_index s \<and> current_index s < int (length (scores s)))"

section \<open>Feature Extractor: analyze_image\<close>

text \<open>
  OpenCV and numpy are outside the repository. A \<open>gray_region\<close> holds what lines
  316 to 322 and 330 of \<^verbatim>\<open>analyze_image\<close> obtain from them for a region:
  \<^verbatim>\<open>gray.shape\<close> (rows, columns), \<^verbatim>\<open>gray.std()\<close> and the keypoints that SIFT
  detects, each with its position \<^verbatim>\<open>kp.pt\<close> and its size \<^verbatim>\<open>kp.size\<close>. Drawing
  the keypoints does not change the returned values and is not tracked.
\<close>

record keypoint =
  pt :: "real \<times> real"
  kp_size :: real

record gray_region =
  shape :: "nat \<times> nat"
  std :: real
  keypoints :: "keypoint list"

record features =
  contrast :: real
  object_count :: nat
  sizes :: "real list"
  proximity :: np_float
  min_size :: real
  avg_size :: real
  max_size :: real
  positions :: "(real \<times> real) list"

definition mean :: "real list \<Rightarrow> real" where
  "mean xs = sum_list xs / real (length xs)"

text \<open>\<^verbatim>\<open>np.mean\<close> of a list: \<open>nan\<close> (with a warning, no exception) when it is empty.\<close>

definition np_mean :: "real list \<Rightarrow> np_float" where
  "np_mean xs = (if xs = [] then NaN else Val (mean xs))"

text \<open>
  The list comprehension of line 344 divides a float by \<^verbatim>\<open>gray.shape[1]\<close> and by
  \<^verbatim>\<open>gray.shape[0]\<close> for each keypoint, which raises on a zero dimension as soon as
  there is a keypoint.
\<close>

definition analyze_image :: "gray_region \<Rightarrow> py_error + features" where
  "analyze_image gray =
     (let kps = keypoints gray;
          szs = map kp_size kps;
          mn = (case szs of [] \<Rightarrow> 0 | x # xs \<Rightarrow> fold min xs x);
          av = (if szs \<noteq> [] then mean szs else 0);
          mx = (case szs of [] \<Rightarrow> 0 | x # xs \<Rightarrow> fold max xs x);
          center_x = real (snd (shape gray) div 2);
          center_y = real (fst (shape gray) div 2);
          prox = np_mean (map (\<lambda>kp. sqrt ((fst (pt kp) - center_x)\<^sup>2
                                         + (snd (pt kp) - center_y)\<^sup>2)) kps)
      in if kps \<noteq> [] \<and> (snd (shape gray) = 0 \<or> fst (shape gray) = 0)
         then Inl ZeroDivisionError
         else Inr \<lparr>contrast = std gray, object_count = length kps, sizes = szs,
                   proximity = prox, min_size = mn, avg_size = av, max_size = mx,
                   positions = map (\<lambda>kp. (fst (pt kp) / real (snd (shape gray)),
                                            snd (pt kp) / real (fst (shape gray)))) kps\<rparr>)"

section \<open>Scan Engine: the scanning loops of main\<close>

text \<open>
  Every page is resized to 1424 by 848 before it is scanned (lines 92 and 405), so
  \<^verbatim>\<open>image.shape[1]\<close> is \<open>page_width\<close> in a session. \<open>num_steps\<close> and the loop
  below take the width and the step count as arguments, as lines 528 to 533 compute
  with them.
\<close>

definition page_width :: int where "page_width = 1424"
definition scan_width :: int where "scan_width = 60"


definition num_steps :: "int \<Rightarrow> int" where
  "num_steps image_width = (image_width - scan_width) + 1"

text \<open>Line 529: a float divided by an integer raises when the integer is 0.\<close>

definition step_duration :: "real \<Rightarrow> int \<Rightarrow> py_error + real" where
  "step_duration duration n =
     (if n = 0 then Inl ZeroDivisionError else Inr (duration / real_of_int n))"

definition start_position :: "int \<Rightarrow> bool \<Rightarrow> int" where
  "start_position n reverse = (if \<not> reverse then 0 else n - 1)"

text \<open>
  The keys: every call of \<^verbatim>\<open>cv2.waitKey\<close> takes the next element of a list of raw
  return values (\<open>-1\<close> when no key was pressed), and the code keeps the low byte.
\<close>

definition mask_key :: "int \<Rightarrow> int" where
  "mask_key raw = raw AND 255"

definition key_a :: int where "key_a = 97"
definition key_b :: int where "key_b = 98"
definition key_f :: int where "key_f = 102"
definition key_n :: int where "key_n = 110"
definition key_p :: int where "key_p = 112"
definition key_r :: int where "key_r = 114"
definition key_esc :: int where "key_esc = 27"

text \<open>
  The inner loop (lines 533 to 578). It ends \<open>Cancelled\<close> on ESC (\<^verbatim>\<open>scanning\<close> is
  then false), \<open>Finished\<close> when the position has left the range, and \<open>NoKey\<close> when
  the list of keys is used up while the loop waits. \<open>scan_visited\<close> lists the offsets
  at which the body of a step ran (lines 544 to 573: the window is analysed, the four
  scan messages are sent, the frame is drawn), in order.
\<close>

datatype scan_exit = Cancelled | Finished | NoKey

record scan_result =
  scan_exit :: scan_exit
  scan_reverse :: bool
  scan_position :: int
  scan_visited :: "int list"
  scan_rest :: "int list"

fun scan_page :: "int \<Rightarrow> bool \<Rightarrow> int \<Rightarrow> int list \<Rightarrow> scan_result" where
  "scan_page n reverse pos [] =
     \<lparr>scan_exit = (if 0 \<le> pos \<and> pos < n then NoKey else Finished),
      scan_reverse = reverse, scan_position = pos, scan_visited = [], scan_rest = []\<rparr>"
| "scan_page n reverse pos (raw # ks) =
     (if 0 \<le> pos \<and> pos < n
      then (let key = mask_key raw;
                reverse' = (if key = key_r then True
                            else if key = key_f then False else reverse)
            in if key \<noteq> key_r \<and> key \<noteq> key_f \<and> key = key_esc
               then \<lparr>scan_exit = Cancelled, scan_reverse = reverse', scan_position = pos,
                     scan_visited = [], scan_rest = ks\<rparr>
               else (let r = scan_page n reverse'
                               (if reverse' then pos - 1 else pos + 1) ks
                     in r\<lparr>scan_visited := pos # scan_visited r\<rparr>))
      else \<lparr>scan_exit = Finished, scan_reverse = reverse, scan_position = pos,
            scan_visited = [], scan_rest = raw # ks\<rparr>)"

section \<open>Session Controller: main\<close>

text \<open>
  \<^verbatim>\<open>main\<close> is modelled as the shell calls it, with a ScoreManager. \<open>files path\<close> is
  \<open>None\<close> when \<^verbatim>\<open>cv2.imread\<close> cannot read the path, and otherwise the statistics
  that \<^verbatim>\<open>analyze_image\<close> returns on the resized raster. The session keeps the local
  variables that decide what the loops do; \<open>trace\<close> records the pages opened, the
  object counts sent by the static analysis and the scan steps executed.
\<close>

datatype event = PageOpened int | ObjectCountSent nat | ScanStep int int

record session =
  manager :: score_manager
  duration :: real
  current_page :: int
  stats :: analysis_data
  reverse_scan :: bool
  current_position :: int
  trace :: "event list"

text \<open>
  \<^verbatim>\<open>analyze_all_pages\<close>: \<^verbatim>\<open>cv2.resize\<close> raises on an image that was not read; the
  pages analysed before it stay in the cache.
\<close>

fun analyze_pages ::
  "(string \<Rightarrow> analysis_data option) \<Rightarrow> score_manager \<Rightarrow> int \<Rightarrow> (string \<times> real) list
     \<Rightarrow> py_error option \<times> score_manager" where
  "analyze_pages files s i [] = (None, s)"
| "analyze_pages files s i ((path, d) # pages) =
     (case files path of
        None \<Rightarrow> (Some Cv2Error, s)
      | Some a \<Rightarrow> analyze_pages files (store_analysis s i a) (i + 1) pages)"

definition analyze_all_pages ::
  "(string \<Rightarrow> analysis_data option) \<Rightarrow> score_manager \<Rightarrow> py_error option \<times> score_manager" where
  "analyze_all_pages files s = analyze_pages files s 0 (scores s)"

text \<open>
  Lines 398 to 449: \<open>None\<close> when the image cannot be loaded (main returns), otherwise
  the state in which the display loop starts.
\<close>

definition main_entry ::
  "(string \<Rightarrow> analysis_data option) \<Rightarrow> score_manager \<Rightarrow> string \<Rightarrow> real \<Rightarrow> event list
     \<Rightarrow> session option" where
  "main_entry files sm image_path dur tr =
     (case files image_path of
        None \<Rightarrow> None
      | Some fresh \<Rightarrow>
          (let page = current_index sm;
               shown = (case get_analysis sm page of Some cached \<Rightarrow> cached | None \<Rightarrow> fresh);
               sm' = (if get_analysis sm page = None then store_analysis sm page shown
                      else sm)
           in Some \<lparr>manager = sm', duration = dur, current_page = page, stats = shown,
                    reverse_scan = False, current_position = 0,
                    trace = tr @ [PageOpened page]\<rparr>))"

text \<open>
  Where the session is: in the display loop (line 454, no scan is running) or at the
  head of the scanning loop (line 524). It ends \<open>Closed\<close> on ESC in the display loop,
  \<open>LoadFailed\<close> when the next page cannot be read, \<open>Raised\<close> on an exception, and
  \<open>Waiting\<close> when the keys are used up.
\<close>

datatype mode = Display | Scan

datatype outcome = Closed | LoadFailed | Waiting mode | Raised py_error

text \<open>
  Lines 500 to 508 and 581 to 585, after \<^verbatim>\<open>next_score\<close> or \<^verbatim>\<open>previous_score\<close> has
  returned: the pair is unpacked into \<^verbatim>\<open>path\<close> and \<^verbatim>\<open>duration\<close>; a non-empty path
  re-enters main, an empty one goes on with the new duration, and \<^verbatim>\<open>None\<close> as the
  duration fails at its next use.
\<close>

datatype turn = Enter session | Stay session | Stop outcome session

definition turn_page ::
  "(string \<Rightarrow> analysis_data option) \<Rightarrow> session
     \<Rightarrow> (py_error + (string \<times> real) option) \<times> score_manager \<Rightarrow> turn" where
  "turn_page files s res =
     (case res of
        (Inl e, m) \<Rightarrow> Stop (Raised e) (s\<lparr>manager := m\<rparr>)
      | (Inr None, m) \<Rightarrow> Stop (Raised TypeError) (s\<lparr>manager := m\<rparr>)
      | (Inr (Some (path, d)), m) \<Rightarrow>
          (if path \<noteq> []
           then (case main_entry files m path d (trace s) of
                   None \<Rightarrow> Stop LoadFailed (s\<lparr>manager := m\<rparr>)
                 | Some s0 \<Rightarrow> Enter s0)
           else Stay (s\<lparr>manager := m, duration := d\<rparr>)))"

text \<open>
  Lines 526 to 533 and 544 to 578 for one page: the inner loop started at the position
  that the direction gives, and the local variables after it.
\<close>

definition scan_outcome :: "session \<Rightarrow> int list \<Rightarrow> scan_result" where
  "scan_outcome s ks =
     scan_page (num_steps page_width) (reverse_scan s)
       (start_position (num_steps page_width) (reverse_scan s)) ks"

definition after_scan :: "session \<Rightarrow> scan_result \<Rightarrow> session" where
  "after_scan s r =
     s\<lparr>reverse_scan := scan_reverse r, current_position := scan_position r,
       trace := trace s @ map (ScanStep (current_page s)) (scan_visited r)\<rparr>"

lemma scan_page_rest_le: "length (scan_rest (scan_page n reverse pos ks)) \<le> length ks"
  by (induction ks arbitrary: reverse pos) (auto simp: Let_def le_SucI)

lemma scan_page_rest_less:
  "0 \<le> pos \<Longrightarrow> pos < n \<Longrightarrow> scan_exit (scan_page n reverse pos ks) \<noteq> NoKey
     \<Longrightarrow> length (scan_rest (scan_page n reverse pos ks)) < length ks"
  using scan_page_rest_le [of n _ _ "tl ks"]
  by (cases ks) (auto simp: Let_def le_imp_less_Suc)

lemma start_position_in_range:
  "0 \<le> start_position (num_steps page_width) reverse"
  "start_position (num_steps page_width) reverse < num_steps page_width"
  by (simp_all add: start_position_def num_steps_def page_width_def scan_width_def)

text \<open>
  The loops of main from line 454 on, one key per call of \<^verbatim>\<open>cv2.waitKey\<close>. Lines 420
  to 438 set \<^verbatim>\<open>keypoints_image\<close> on every path, so the branch of line 512 is never
  taken; \<^verbatim>\<open>auto_play\<close> is handed on to the next call of main and read nowhere.
  Drawing and printing are not tracked.
\<close>

function run ::
  "(string \<Rightarrow> analysis_data option) \<Rightarrow> mode \<Rightarrow> session \<Rightarrow> int list \<Rightarrow> outcome \<times> session" where
  "run files Display s [] = (Waiting Display, s)"
| "run files Display s (raw # ks) =
     (let key = mask_key raw
      in if key = key_a
         then (case analyze_all_pages files (manager s) of
                 (Some e, m) \<Rightarrow> (Raised e, s\<lparr>manager := m\<rparr>)
               | (None, m) \<Rightarrow>
                   (case get_analysis m (current_page s) of
                      None \<Rightarrow> run files Display (s\<lparr>manager := m\<rparr>) ks
                    | Some a \<Rightarrow>
                        run files Display
                          (s\<lparr>manager := m, stats := a,
                             trace := trace s @ [ObjectCountSent (cached_object_count a)]\<rparr>)
                          ks))
         else if key = key_n
         then (case turn_page files s (next_score (manager s)) of
                 Enter s0 \<Rightarrow> run files Display s0 ks
               | Stay s1 \<Rightarrow> run files Display s1 ks
               | Stop out s1 \<Rightarrow> (out, s1))
         else if key = key_p
         then (case turn_page files s (previous_score (manager s)) of
                 Enter s0 \<Rightarrow> run files Display s0 ks
               | Stay s1 \<Rightarrow> run files Display s1 ks
               | Stop out s1 \<Rightarrow> (out, s1))
         else if key = key_b then run files Scan s ks
         else if key = key_esc then (Closed, s)
         else run files Display s ks)"
| "run files Scan s ks =
     (case step_duration (duration s) (num_steps page_width) of
        Inl e \<Rightarrow> (Raised e, s)
      | Inr wait \<Rightarrow>
          (let r = scan_outcome s ks;
               s1 = after_scan s r
           in if scan_exit r = NoKey then (Waiting Scan, s1)
              else if scan_exit r = Finished \<and> has_next_score (manager s1)
              then (case turn_page files s1 (next_score (manager s1)) of
                      Enter s0 \<Rightarrow> run files Display s0 (scan_rest r)
                    | Stay s2 \<Rightarrow> run files Scan s2 (scan_rest r)
                    | Stop out s2 \<Rightarrow> (out, s2))
              else run files Display s1 (scan_rest r)))"
  by pat_completeness auto
termination
proof (relation "measures [\<lambda>(files, m, s, ks). length ks,
                           \<lambda>(files, m, s, ks). (case m of Display \<Rightarrow> 0 | Scan \<Rightarrow> 1)]")
qed (auto simp: start_position_in_range scan_outcome_def
          intro: le_imp_less_or_eq [OF scan_page_rest_le] scan_page_rest_less)

declare run.simps [simp del]

text \<open>The scan steps of a trace, and \<^verbatim>\<open>next_score\<close> called \<open>k\<close> times in a row.\<close>

fun is_scan_step :: "event \<Rightarrow> bool" where
  "is_scan_step (ScanStep page offset) = True"
| "is_scan_step (PageOpened page) = False"
| "is_scan_step (ObjectCountSent n) = False"

definition scan_steps :: "event list \<Rightarrow> event list" where
  "scan_steps tr = filter is_scan_step tr"

fun step_in_range :: "event \<Rightarrow> bool" where
  "step_in_range (ScanStep page offset) = (0 \<le> offset \<and> offset < num_steps page_width)"
| "step_in_range (PageOpened page) = True"
| "step_in_range (ObjectCountSent n) = True"

fun next_times :: "nat \<Rightarrow> score_manager \<Rightarrow> score_manager" where
  "next_times 0 s = s"
| "next_times (Suc k) s = next_times k (snd (next_score s))"

section \<open>Example inputs\<close>

definition example_store :: score_manager where
  "example_store = apply_ops init_manager [Add ''a.png'' 10, Add ''b.png'' 20]"

definition stale_store :: score_manager where
  "stale_store = apply_ops example_store [Next, Remove 1]"

definition example_files :: "string \<Rightarrow> analysis_data option" where
  "example_files path =
     (if path = ''missing.png'' then None
      else Some \<lparr>cached_contrast = 40, cached_object_count = 3, cached_proximity = Val 100\<rparr>)"

definition example_session :: session where
  "example_session =
     \<lparr>manager = store_analysis example_store 0
                  \<lparr>cached_contrast = 40, cached_object_count = 3, cached_proximity = Val 100\<rparr>,
      duration = 10, current_page = 0,
      stats = \<lparr>cached_contrast = 40, cached_object_count = 3, cached_proximity = Val 100\<rparr>,
      reverse_scan = False, current_position = 0, trace = [PageOpened 0]\<rparr>"

definition blank_path_store :: score_manager where
  "blank_path_store = apply_ops init_manager [Add ''a.png'' 10, Add [] 20]"

definition blank_path_session :: session where
  "blank_path_session =
     \<lparr>manager = store_analysis blank_path_store 0
                  \<lparr>cached_contrast = 40, cached_object_count = 3, cached_proximity = Val 100\<rparr>,
      duration = 10, current_page = 0,
      stats = \<lparr>cached_contrast = 40, cached_object_count = 3, cached_proximity = Val 100\<rparr>,
      reverse_scan = False, current_position = 0, trace = [PageOpened 0]\<rparr>"

definition last_page_session :: session where
  "last_page_session = snd (run example_files Display example_session [110])"

definition example_region :: gray_region where
  "example_region =
     \<lparr>shape = (848, 60), std = 12,
      keypoints = [\<lparr>pt = (10, 20), kp_size = 3\<rparr>, \<lparr>pt = (30, 400), kp_size = 2\<rparr>,
                   \<lparr>pt = (50, 800), kp_size = 7\<rparr>]\<rparr>"


section \<open>Page Store: properties\<close>

lemma next_score_fields:
  "scores (snd (next_score s)) = scores s"
  "scores s \<noteq> [] \<Longrightarrow>
     current_index (snd (next_score s)) = (current_index s + 1) mod int (length (scores s))"
  "scores s = [] \<Longrightarrow> next_score s = (Inr None, s)"
  by (simp_all add: next_score_def Let_def)

lemma previous_score_fields:
  "scores (snd (previous_score s)) = scores s"
  "scores s \<noteq> [] \<Longrightarrow>
     current_index (snd (previous_score s)) = (current_index s - 1) mod int (length (scores s))"
  "scores s = [] \<Longrightarrow> previous_score s = (Inr None, s)"
  by (simp_all add: previous_score_def Let_def)

lemma next_times_scores: "scores (next_times k s) = scores s"
  by (induction k arbitrary: s) (simp_all add: next_score_fields)

lemma next_times_index:
  "scores s \<noteq> [] \<Longrightarrow>
     current_index (next_times (Suc k) s)
       = (current_index s + 1 + int k) mod int (length (scores s))"
proof (induction k arbitrary: s)
  case 0
  then show ?case by (simp add: next_score_fields)
next
  case (Suc k)
  let ?t = "snd (next_score s)"
  have sc: "scores ?t = scores s" by (simp add: next_score_fields)
  have "current_index (next_times (Suc k) ?t)
          = (current_index ?t + 1 + int k) mod int (length (scores ?t))"
    using Suc.prems sc by (intro Suc.IH) simp
  moreover have "current_index ?t = (current_index s + 1) mod int (length (scores s))"
    using Suc.prems by (simp add: next_score_fields)
  ultimately have "current_index (next_times (Suc k) ?t)
      = ((current_index s + 1) mod int (length (scores s)) + (1 + int k))
          mod int (length (scores s))"
    by (simp add: sc add.assoc)
  also have "\<dots> = ((current_index s + 1) + (1 + int k)) mod int (length (scores s))"
    by (rule mod_add_left_eq)
  finally show ?case
    by (simp add: add.assoc)
qed

lemma next_times_round_trip:
  assumes "index_valid s"
  shows "current_index (next_times (length (scores s)) s) = current_index s"
proof (cases "length (scores s)")
  case 0
  then show ?thesis by simp
next
  case (Suc k)
  then have ne: "scores s \<noteq> []" by auto
  have "current_index (next_times (Suc k) s)
          = (current_index s + 1 + int k) mod int (length (scores s))"
    using ne by (rule next_times_index)
  also have "\<dots> = (current_index s + int (length (scores s))) mod int (length (scores s))"
    using Suc by (simp add: ac_simps)
  also have "\<dots> = current_index s"
    using assms by (simp add: index_valid_def)
  finally show ?thesis using Suc by simp
qed

lemma next_score_returns:
  assumes "scores s \<noteq> []"
  shows "fst (next_score s)
           = Inr (Some (scores s ! nat ((current_index s + 1) mod int (length (scores s)))))"
  using assms
  by (simp add: next_score_def Let_def get_current_score_def list_getitem_def)

lemma previous_score_returns:
  assumes "scores s \<noteq> []"
  shows "fst (previous_score s)
           = Inr (Some (scores s ! nat ((current_index s - 1) mod int (length (scores s)))))"
  using assms
  by (simp add: previous_score_def Let_def get_current_score_def list_getitem_def)

lemmas store_ev = example_store_def apply_ops_def add_score_def init_manager_def
  next_score_def previous_score_def get_current_score_def list_getitem_def Let_def
  index_valid_def remove_score_def has_next_score_def get_total_duration_def

lemma cursor_kept_without_remove:
  assumes "\<forall>op \<in> set ops. \<forall>i. op \<noteq> Remove i"
    and "(scores s = [] \<and> current_index s = 0) \<or> index_valid s"
  shows "(scores (apply_ops s ops) = [] \<and> current_index (apply_ops s ops) = 0)
         \<or> index_valid (apply_ops s ops)"
  using assms
proof (induction ops arbitrary: s)
  case Nil
  then show ?case by (simp add: apply_ops_def)
next
  case (Cons op ops)
  have step: "(scores (apply_op s op) = [] \<and> current_index (apply_op s op) = 0)
              \<or> index_valid (apply_op s op)"
  proof (cases op)
    case (Add path d)
    with Cons.prems(2) show ?thesis
      by (auto simp: add_score_def index_valid_def)
  next
    case (Remove i)
    with Cons.prems(1) show ?thesis by auto
  next
    case Next
    with Cons.prems(2) show ?thesis
      by (cases "scores s = []") (auto simp: next_score_def Let_def index_valid_def)
  next
    case Previous
    with Cons.prems(2) show ?thesis
      by (cases "scores s = []") (auto simp: previous_score_def Let_def index_valid_def)
  qed
  have "apply_ops s (op # ops) = apply_ops (apply_op s op) ops"
    by (simp add: apply_ops_def)
  moreover have "(scores (apply_ops (apply_op s op) ops) = []
                   \<and> current_index (apply_ops (apply_op s op) ops) = 0)
                 \<or> index_valid (apply_ops (apply_op s op) ops)"
    using Cons.prems(1) step by (intro Cons.IH) auto
  ultimately show ?case by simp
qed

text \<open>
  C2, as the code has it. \<^verbatim>\<open>add_score\<close> checks nothing: for every path and every
  duration, also a zero or negative one, the page is appended at the end of the
  sequence, the total duration becomes the old total plus the duration, and the cursor
  stays where it was.
\<close>

theorem add_score_appends:
  "scores (add_score s path d) = scores s @ [(path, d)] \<and>
   get_total_duration (add_score s path d) = get_total_duration s + d \<and>
   current_index (add_score s path d) = current_index s"
  by (simp add: add_score_def get_total_duration_def)

text \<open>
  C2 as stated does not hold: a page added to the empty store with duration \<open>-5\<close> is
  stored, and the total duration changes from 0 to \<open>-5\<close>.
\<close>

theorem add_score_stores_nonpositive:
  "(-5 :: real) \<le> 0 \<and>
   scores (add_score init_manager ''page.png'' (-5)) = [(''page.png'', -5)] \<and>
   scores (add_score init_manager ''page.png'' (-5)) \<noteq> scores init_manager \<and>
   get_total_duration (add_score init_manager ''page.png'' (-5)) = -5 \<and>
   get_total_duration init_manager = 0"
  by (simp add: store_ev)

text \<open>
  C3: the cursor of a non-empty store is a valid index. \<^verbatim>\<open>remove_score\<close> does not
  adjust the cursor: after two pages are added, the cursor is moved to the second and
  the second is removed, one page is left, the cursor is 1, and
  \<^verbatim>\<open>get_current_score\<close> raises IndexError. (Without removals the cursor stays valid:
  \<open>cursor_kept_without_remove\<close>.)
\<close>

theorem remove_score_stale_index:
  "scores stale_store = [(''a.png'', 10)] \<and> current_index stale_store = 1 \<and>
   \<not> index_valid stale_store \<and> get_current_score stale_store = Inl IndexError"
  by (simp add: stale_store_def store_ev)

lemma next_times_index_mod:
  "scores s \<noteq> [] \<Longrightarrow>
     current_index (next_times (length (scores s)) s)
       = current_index s mod int (length (scores s))"
proof (cases "length (scores s)")
  case 0
  assume "scores s \<noteq> []"
  with 0 show ?thesis by simp
next
  case (Suc k)
  assume ne: "scores s \<noteq> []"
  have "current_index (next_times (Suc k) s)
          = (current_index s + 1 + int k) mod int (length (scores s))"
    using ne by (rule next_times_index)
  also have "\<dots> = (current_index s + int (length (scores s))) mod int (length (scores s))"
    using Suc by (simp add: ac_simps)
  also have "\<dots> = current_index s mod int (length (scores s))"
    by simp
  finally show ?thesis using Suc by simp
qed

text \<open>
  C8, as the code has it. On a non-empty store of length \<open>N\<close> and for every cursor,
  \<^verbatim>\<open>next_score\<close> moves the cursor to \<open>(index + 1) mod N\<close> and \<^verbatim>\<open>previous_score\<close>
  to \<open>(index - 1) mod N\<close>, each returns the page at the new cursor and leaves the pages
  alone; \<open>N\<close> calls of \<^verbatim>\<open>next_score\<close> end at \<open>index mod N\<close>, which is the cursor they
  started from when that cursor is a valid index; on an empty store both return the
  pair of \<^verbatim>\<open>None\<close> and change nothing.
\<close>

theorem navigation_cyclic:
  "(scores s \<noteq> [] \<longrightarrow>
      current_index (snd (next_score s))
        = (current_index s + 1) mod int (length (scores s)) \<and>
      current_index (snd (previous_score s))
        = (current_index s - 1) mod int (length (scores s)) \<and>
      fst (next_score s)
        = Inr (Some (scores s ! nat ((current_index s + 1) mod int (length (scores s))))) \<and>
      fst (previous_score s)
        = Inr (Some (scores s ! nat ((current_index s - 1) mod int (length (scores s))))) \<and>
      scores (snd (next_score s)) = scores s \<and>
      scores (snd (previous_score s)) = scores s \<and>
      current_index (next_times (length (scores s)) s)
        = current_index s mod int (length (scores s))) \<and>
   (index_valid s \<longrightarrow> current_index (next_times (length (scores s)) s) = current_index s) \<and>
   (scores s = [] \<longrightarrow> next_score s = (Inr None, s) \<and> previous_score s = (Inr None, s))"
  using next_times_round_trip [of s] next_score_returns [of s] previous_score_returns [of s]
    next_times_index_mod [of s]
  by (simp add: next_score_fields previous_score_fields)

theorem navigation_cyclic_example:
  "scores example_store \<noteq> [] \<and> index_valid example_store \<and>
   current_index (snd (next_score example_store)) = 1 \<and>
   current_index (snd (previous_score example_store)) = 1 \<and>
   fst (next_score example_store) = Inr (Some (''b.png'', 20)) \<and>
   current_index (next_times 2 example_store) = current_index example_store \<and>
   scores init_manager = [] \<and>
   next_score init_manager = (Inr None, init_manager) \<and>
   previous_score init_manager = (Inr None, init_manager)"
  using navigation_cyclic [of example_store] navigation_cyclic [of init_manager]
  by (simp add: store_ev eval_nat_numeral)

text \<open>
  C8 as stated does not hold for every cursor: on the store that \<^verbatim>\<open>remove_score\<close>
  leaves with one page and the cursor 1, one call of \<^verbatim>\<open>next_score\<close> (the length is 1)
  ends at the cursor 0.
\<close>

theorem stale_cursor_round_trip:
  "scores stale_store = [(''a.png'', 10)] \<and> current_index stale_store = 1 \<and>
   current_index (next_times (length (scores stale_store)) stale_store) = 0 \<and>
   current_index (next_times (length (scores stale_store)) stale_store)
     \<noteq> current_index stale_store"
  by (simp add: stale_store_def store_ev)

text \<open>
  C9: \<^verbatim>\<open>has_next_score\<close> holds exactly when there is more than one page and the
  cursor is before the last index; for a valid cursor that is: not the last index.
  The check does not wrap: on the last page it is false, while \<^verbatim>\<open>next_score\<close>
  goes to index 0.
\<close>

theorem has_next_score_not_last:
  "(has_next_score s \<longleftrightarrow>
      1 < length (scores s) \<and> current_index s < int (length (scores s)) - 1) \<and>
   (index_valid s \<longrightarrow>
      (has_next_score s \<longleftrightarrow>
         1 < length (scores s) \<and> current_index s \<noteq> int (length (scores s)) - 1)) \<and>
   (scores s \<noteq> [] \<and> current_index s = int (length (scores s)) - 1 \<longrightarrow>
      \<not> has_next_score s \<and> current_index (snd (next_score s)) = 0)"
  by (auto simp: has_next_score_def index_valid_def next_score_fields)

theorem has_next_score_example:
  "index_valid example_store \<and> has_next_score example_store \<and>
   index_valid (snd (next_score example_store)) \<and>
   current_index (snd (next_score example_store)) = int (length (scores example_store)) - 1 \<and>
   \<not> has_next_score (snd (next_score example_store)) \<and>
   current_index (snd (next_score (snd (next_score example_store)))) = 0"
  using has_next_score_not_last [of example_store]
    has_next_score_not_last [of "snd (next_score example_store)"]
  by (simp add: store_ev)

section \<open>Feature Extractor: properties\<close>

lemma fold_min_lower: "fold min xs (x::real) \<le> x \<and> (\<forall>y \<in> set xs. fold min xs x \<le> y)"
proof (induction xs arbitrary: x)
  case Nil
  show ?case by simp
next
  case (Cons a xs)
  have ih: "fold min xs (min a x) \<le> min a x \<and> (\<forall>y \<in> set xs. fold min xs (min a x) \<le> y)"
    by (rule Cons.IH)
  then show ?case by auto
qed

lemma fold_max_upper: "x \<le> fold max xs (x::real) \<and> (\<forall>y \<in> set xs. y \<le> fold max xs x)"
proof (induction xs arbitrary: x)
  case Nil
  show ?case by simp
next
  case (Cons a xs)
  have ih: "max a x \<le> fold max xs (max a x) \<and> (\<forall>y \<in> set xs. y \<le> fold max xs (max a x))"
    by (rule Cons.IH)
  then show ?case by auto
qed

lemma sum_list_lower: "\<forall>y \<in> set xs. m \<le> y \<Longrightarrow> m * real (length xs) \<le> sum_list xs"
  by (induction xs) (auto simp: algebra_simps)

lemma sum_list_upper: "\<forall>y \<in> set xs. y \<le> m \<Longrightarrow> sum_list xs \<le> m * real (length xs)"
  by (induction xs) (auto simp: algebra_simps)

lemma mean_between:
  assumes "xs \<noteq> []" and "\<forall>y \<in> set xs. lo \<le> y" and "\<forall>y \<in> set xs. y \<le> hi"
  shows "lo \<le> mean xs \<and> mean xs \<le> hi"
proof -
  have pos: "0 < real (length xs)" using assms(1) by simp
  have "lo * real (length xs) \<le> sum_list xs" using assms(2) by (rule sum_list_lower)
  then have lower: "lo \<le> mean xs"
    using pos by (simp add: mean_def pos_le_divide_eq)
  have "sum_list xs \<le> hi * real (length xs)" using assms(3) by (rule sum_list_upper)
  then have "mean xs \<le> hi"
    using pos by (simp add: mean_def pos_divide_le_eq)
  with lower show ?thesis by simp
qed

lemma size_bounds:
  "fold min xs x \<le> mean (x # xs) \<and> mean (x # xs) \<le> fold max xs (x::real)"
  using fold_min_lower [where xs = xs and x = x] fold_max_upper [where xs = xs and x = x]
  by (intro mean_between) auto

text \<open>
  C7: for a region in which no keypoint is detected, \<^verbatim>\<open>analyze_image\<close> returns (it
  raises nothing) an object count of 0, empty lists of sizes and positions, and the
  proximity \<open>nan\<close>, which is what \<^verbatim>\<open>np.mean\<close> gives on the empty list of distances.
\<close>

theorem no_keypoints_features:
  "keypoints gray = [] \<Longrightarrow>
     analyze_image gray =
       Inr \<lparr>contrast = std gray, object_count = 0, sizes = [], proximity = NaN,
            min_size = 0, avg_size = 0, max_size = 0, positions = []\<rparr>"
  by (simp add: analyze_image_def np_mean_def)

theorem no_keypoints_example:
  "keypoints (example_region\<lparr>keypoints := []\<rparr>) = [] \<and>
   analyze_image (example_region\<lparr>keypoints := []\<rparr>) =
     Inr \<lparr>contrast = 12, object_count = 0, sizes = [], proximity = NaN,
          min_size = 0, avg_size = 0, max_size = 0, positions = []\<rparr>"
  using no_keypoints_features [of "example_region\<lparr>keypoints := []\<rparr>"]
  by (simp add: example_region_def)

text \<open>
  C10: for a region of positive width and height, or without keypoints,
  \<^verbatim>\<open>analyze_image\<close> returns statistics with
  \<open>min_size \<le> avg_size \<le> max_size\<close> when at least one keypoint is detected, and all
  three are 0 when none is. (The mean is the exact one: the sizes are real numbers
  here.)
\<close>

theorem size_statistics_ordered:
  "keypoints gray = [] \<or> (0 < fst (shape gray) \<and> 0 < snd (shape gray)) \<Longrightarrow>
     \<exists>f. analyze_image gray = Inr f \<and>
         (keypoints gray \<noteq> [] \<longrightarrow> min_size f \<le> avg_size f \<and> avg_size f \<le> max_size f) \<and>
         (keypoints gray = [] \<longrightarrow> min_size f = 0 \<and> avg_size f = 0 \<and> max_size f = 0)"
proof (cases "keypoints gray")
  case Nil
  then show ?thesis by (simp add: analyze_image_def)
next
  case (Cons kp kps)
  assume "keypoints gray = [] \<or> (0 < fst (shape gray) \<and> 0 < snd (shape gray))"
  with Cons have dims: "0 < fst (shape gray)" "0 < snd (shape gray)" by auto
  have "fold min (map kp_size kps) (kp_size kp) \<le> mean (kp_size kp # map kp_size kps) \<and>
        mean (kp_size kp # map kp_size kps) \<le> fold max (map kp_size kps) (kp_size kp)"
    by (rule size_bounds)
  then show ?thesis
    using Cons dims by (simp add: analyze_image_def Let_def)
qed

theorem size_statistics_example:
  "0 < fst (shape example_region) \<and> 0 < snd (shape example_region) \<and>
   map_sum id min_size (analyze_image example_region) = Inr 2 \<and>
   map_sum id avg_size (analyze_image example_region) = Inr 4 \<and>
   map_sum id max_size (analyze_image example_region) = Inr 7 \<and>
   map_sum id min_size (analyze_image (example_region\<lparr>keypoints := []\<rparr>)) = Inr 0 \<and>
   map_sum id avg_size (analyze_image (example_region\<lparr>keypoints := []\<rparr>)) = Inr 0 \<and>
   map_sum id max_size (analyze_image (example_region\<lparr>keypoints := []\<rparr>)) = Inr 0"
  using size_statistics_ordered [of example_region]
    size_statistics_ordered [of "example_region\<lparr>keypoints := []\<rparr>"]
  by (simp add: example_region_def analyze_image_def Let_def mean_def)

section \<open>Scan Engine: properties\<close>

lemmas key_codes = mask_key_def key_a_def key_b_def key_f_def key_n_def key_p_def key_r_def
  key_esc_def

lemmas scan_ev = key_codes num_steps_def page_width_def scan_width_def start_position_def
  step_duration_def Let_def

lemma scan_visited_in_range:
  "list_all (\<lambda>offset. 0 \<le> offset \<and> offset < n) (scan_visited (scan_page n reverse pos ks))"
  by (induction ks arbitrary: reverse pos) (simp_all add: Let_def)

lemma scan_page_out_of_range:
  "\<not> (0 \<le> pos \<and> pos < n) \<Longrightarrow>
     scan_page n reverse pos ks =
       \<lparr>scan_exit = Finished, scan_reverse = reverse, scan_position = pos,
        scan_visited = [], scan_rest = ks\<rparr>"
  by (cases ks) auto

lemma scan_page_finished:
  "scan_exit (scan_page n reverse pos ks) = Finished \<Longrightarrow>
     \<not> (0 \<le> scan_position (scan_page n reverse pos ks)
        \<and> scan_position (scan_page n reverse pos ks) < n)"
  by (induction ks arbitrary: reverse pos) (auto simp: Let_def split: if_splits)

lemma scan_forward_no_keys:
  "0 \<le> pos \<Longrightarrow> pos + int k \<le> n \<Longrightarrow>
     scan_page n False pos (replicate k (- 1) @ ks) =
       (scan_page n False (pos + int k) ks)
         \<lparr>scan_visited := map (\<lambda>i. pos + int i) [0..<k]
                            @ scan_visited (scan_page n False (pos + int k) ks)\<rparr>"
proof (induction k arbitrary: pos)
  case 0
  show ?case by simp
next
  case (Suc k)
  have "scan_page n False (pos + 1) (replicate k (- 1) @ ks) =
          (scan_page n False (pos + 1 + int k) ks)
            \<lparr>scan_visited := map (\<lambda>i. pos + 1 + int i) [0..<k]
                               @ scan_visited (scan_page n False (pos + 1 + int k) ks)\<rparr>"
    using Suc.prems by (intro Suc.IH) simp_all
  moreover have "pos # map (\<lambda>i. pos + 1 + int i) [0..<k] = map (\<lambda>i. pos + int i) [0..<Suc k]"
    by (simp add: upt_rec [of 0] map_Suc_upt [symmetric] del: upt_Suc) 
  ultimately show ?case
    using Suc.prems by (simp add: key_codes Let_def add.assoc del: upt_Suc)
qed

lemma full_forward_scan:
  "0 \<le> n \<Longrightarrow>
     scan_page n False 0 (replicate (nat n) (- 1) @ ks) =
       \<lparr>scan_exit = Finished, scan_reverse = False, scan_position = n,
        scan_visited = map int [0..<nat n], scan_rest = ks\<rparr>"
  using scan_forward_no_keys [of 0 "nat n" n ks]
  by (simp add: scan_page_out_of_range)

text \<open>
  C6: in a forward scan whose position is \<open>k\<close>, inside the range, when the key read at
  the head of the step is \<^verbatim>\<open>r\<close>: the step at \<open>k\<close> is executed and the loop goes on in
  reverse from \<open>k - 1\<close>, so nothing is reset; when \<open>k \<ge> 1\<close> and the next key is not ESC
  the next offset visited is \<open>k - 1\<close>; when \<open>k = 0\<close> the position \<open>-1\<close> is outside the
  range and the scan of the page ends after the step at 0. In the same way the key
  \<^verbatim>\<open>f\<close> in a reverse scan at \<open>k\<close> lets the loop go on forward from \<open>k + 1\<close>.
\<close>

theorem toggle_keeps_offset:
  "0 \<le> k \<and> k < n \<Longrightarrow>
     (mask_key raw = key_r \<longrightarrow>
        scan_page n False k (raw # ks) =
          (scan_page n True (k - 1) ks)
            \<lparr>scan_visited := k # scan_visited (scan_page n True (k - 1) ks)\<rparr> \<and>
        (1 \<le> k \<and> mask_key raw' \<noteq> key_esc \<longrightarrow>
           take 2 (scan_visited (scan_page n False k (raw # raw' # ks))) = [k, k - 1]) \<and>
        (k = 0 \<longrightarrow> scan_visited (scan_page n False k (raw # ks)) = [0] \<and>
                   scan_exit (scan_page n False k (raw # ks)) = Finished \<and>
                   scan_position (scan_page n False k (raw # ks)) = - 1)) \<and>
     (mask_key raw = key_f \<longrightarrow>
        scan_page n True k (raw # ks) =
          (scan_page n False (k + 1) ks)
            \<lparr>scan_visited := k # scan_visited (scan_page n False (k + 1) ks)\<rparr>)"
  by (auto simp: Let_def key_r_def key_f_def key_esc_def scan_page_out_of_range)

theorem toggle_keeps_offset_example:
  "(0::int) \<le> 700 \<and> (700::int) < 1365 \<and> mask_key 114 = key_r \<and> mask_key 102 = key_f \<and>
   scan_position (scan_page 1365 False 700 [114]) = 699 \<and>
   scan_reverse (scan_page 1365 False 700 [114]) \<and>
   scan_visited (scan_page 1365 False 700 [114, -1, -1]) = [700, 699, 698] \<and>
   take 2 (scan_visited (scan_page 1365 False 700 [114, -1, -1])) = [700, 699] \<and>
   scan_visited (scan_page 1365 True 700 [102, -1, -1]) = [700, 701, 702]"
  using toggle_keeps_offset [where k = 700 and n = 1365 and raw = 114 and raw' = "-1"
          and ks = "[-1]"]
    toggle_keeps_offset [where k = 700 and n = 1365 and raw = 102 and ks = "[-1, -1]"]
  by (simp add: scan_ev)

text \<open>
  Line 529 by itself, for an arbitrary width: the division raises exactly when the raster
  is one pixel narrower than the window. The rasters of a session are all 1424 wide.
\<close>

lemma step_duration_raises_iff:
  "step_duration d (num_steps w) = Inl ZeroDivisionError \<longleftrightarrow> w = scan_width - 1"
  by (auto simp: step_duration_def num_steps_def)

section \<open>Session Controller: properties\<close>

text \<open>The example session is the state in which main starts on the first example page.\<close>

lemma example_session_entry:
  "main_entry example_files example_store ''a.png'' 10 [] = Some example_session"
  by (simp add: main_entry_def example_files_def example_store_def example_session_def
      apply_ops_def add_score_def init_manager_def get_analysis_def store_analysis_def Let_def)

lemma scan_steps_append [simp]: "scan_steps (xs @ ys) = scan_steps xs @ scan_steps ys"
  by (simp add: scan_steps_def)

lemma scan_steps_simps [simp]:
  "scan_steps [] = []"
  "scan_steps (PageOpened page # tr) = scan_steps tr"
  "scan_steps (ObjectCountSent c # tr) = scan_steps tr"
  "scan_steps (ScanStep page offset # tr) = ScanStep page offset # scan_steps tr"
  by (simp_all add: scan_steps_def)

lemma turn_page_steps:
  "turn_page files s res = Enter s' \<or> turn_page files s res = Stay s'
     \<or> turn_page files s res = Stop out s'
   \<Longrightarrow> scan_steps (trace s') = scan_steps (trace s)"
  by (auto simp: turn_page_def main_entry_def Let_def
           split: prod.splits sum.splits option.splits if_splits)

lemma display_without_scan_key:
  "list_all (\<lambda>raw. mask_key raw \<noteq> key_b) ks \<Longrightarrow>
     scan_steps (trace (snd (run files Display s ks))) = scan_steps (trace s)"
proof (induction ks arbitrary: s)
  case Nil
  show ?case by (simp add: run.simps(1))
next
  case (Cons raw ks)
  then have nb: "mask_key raw \<noteq> key_b" and rest: "list_all (\<lambda>raw. mask_key raw \<noteq> key_b) ks"
    by simp_all
  note ih = Cons.IH [OF rest]
  have turn: "scan_steps (trace (snd (case turn_page files s res of
                  Enter s0 \<Rightarrow> run files Display s0 ks
                | Stay s1 \<Rightarrow> run files Display s1 ks
                | Stop out s1 \<Rightarrow> (out, s1)))) = scan_steps (trace s)" for res
    using ih turn_page_steps [of files s res]
    by (cases "turn_page files s res") simp_all
  consider (a) "mask_key raw = key_a"
    | (n) "mask_key raw = key_n"
    | (p) "mask_key raw = key_p"
    | (esc) "mask_key raw = key_esc"
    | (other) "mask_key raw \<notin> {key_a, key_n, key_p, key_b, key_esc}"
    using nb by auto
  then show ?case
  proof cases
    case a
    then show ?thesis
      using ih by (simp add: run.simps(2) Let_def split: prod.splits option.splits)
  next
    case n
    then show ?thesis
      using turn [of "next_score (manager s)"]
      by (simp add: run.simps(2) Let_def key_a_def key_n_def)
  next
    case p
    then show ?thesis
      using turn [of "previous_score (manager s)"]
      by (simp add: run.simps(2) Let_def key_a_def key_n_def key_p_def)
  next
    case esc
    then show ?thesis
      by (simp add: run.simps(2) Let_def key_a_def key_n_def key_p_def key_b_def key_esc_def)
  next
    case other
    then show ?thesis
      using ih by (simp add: run.simps(2) Let_def)
  qed
qed

lemma run_scan_unfold:
  "run files Scan s ks =
     (let r = scan_outcome s ks; s1 = after_scan s r
      in if scan_exit r = NoKey then (Waiting Scan, s1)
         else if scan_exit r = Finished \<and> has_next_score (manager s1)
         then (case turn_page files s1 (next_score (manager s1)) of
                 Enter s0 \<Rightarrow> run files Display s0 (scan_rest r)
               | Stay s2 \<Rightarrow> run files Scan s2 (scan_rest r)
               | Stop out s2 \<Rightarrow> (out, s2))
         else run files Display s1 (scan_rest r))"
  by (subst run.simps(3))
     (simp add: step_duration_def num_steps_def page_width_def scan_width_def)

lemma scan_end_next_page:
  assumes fin: "scan_exit (scan_outcome s ks) = Finished"
    and nxt: "has_next_score (manager s)"
    and page: "fst (next_score (manager s)) = Inr (Some (path, d))"
    and path: "path \<noteq> []"
  shows "(case main_entry files (snd (next_score (manager s))) path d
                 (trace (after_scan s (scan_outcome s ks))) of
            None \<Rightarrow> files path = None \<and>
                    fst (run files Scan s ks) = LoadFailed
          | Some s0 \<Rightarrow>
              files path \<noteq> None \<and>
              run files Scan s ks = run files Display s0 (scan_rest (scan_outcome s ks)) \<and>
              \<not> reverse_scan s0 \<and> current_position s0 = 0 \<and> duration s0 = d \<and>
              current_page s0
                = (current_index (manager s) + 1) mod int (length (scores (manager s))) \<and>
              trace s0 = trace s
                @ map (ScanStep (current_page s)) (scan_visited (scan_outcome s ks))
                @ [PageOpened (current_page s0)])"
proof -
  let ?r = "scan_outcome s ks"
  let ?s1 = "after_scan s ?r"
  have m1: "manager ?s1 = manager s" by (simp add: after_scan_def)
  obtain res m where nm: "next_score (manager s) = (res, m)" by (cases "next_score (manager s)")
  with page have res: "res = Inr (Some (path, d))" by simp
  have "scores (manager s) \<noteq> []"
    using nxt by (auto simp: has_next_score_def)
  then have mi: "current_index m
      = (current_index (manager s) + 1) mod int (length (scores (manager s)))"
    using nm next_score_fields(2) [of "manager s"] by simp
  show ?thesis
  proof (cases "files path")
    case None
    then show ?thesis
      using fin nxt nm res path m1
      by (simp add: run_scan_unfold Let_def turn_page_def main_entry_def)
  next
    case (Some a)
    then show ?thesis
      using fin nxt nm res path m1 mi
      by (simp add: run_scan_unfold Let_def turn_page_def main_entry_def after_scan_def)
  qed
qed

lemma scan_end_idle:
  assumes "scan_exit (scan_outcome s ks) = Finished" and "\<not> has_next_score (manager s)"
  shows "run files Scan s ks
           = run files Display (after_scan s (scan_outcome s ks)) (scan_rest (scan_outcome s ks))"
  using assms by (simp add: run_scan_unfold Let_def after_scan_def)

lemma step_in_range_after_scan:
  "list_all step_in_range (trace s) \<Longrightarrow>
     list_all step_in_range (trace (after_scan s (scan_outcome s ks)))"
  using scan_visited_in_range [of "num_steps page_width" "reverse_scan s"
          "start_position (num_steps page_width) (reverse_scan s)" ks]
  by (auto simp: after_scan_def scan_outcome_def list_all_iff)

lemma turn_page_in_range:
  "turn_page files s res = Enter s' \<or> turn_page files s res = Stay s'
     \<or> turn_page files s res = Stop out s'
   \<Longrightarrow> list_all step_in_range (trace s) \<Longrightarrow> list_all step_in_range (trace s')"
  by (auto simp: turn_page_def main_entry_def Let_def
           split: prod.splits sum.splits option.splits if_splits)

lemma run_steps_in_range:
  "list_all step_in_range (trace s) \<Longrightarrow>
     list_all step_in_range (trace (snd (run files m s ks)))"
proof (induction files m s ks rule: run.induct)
  case (1 files s)
  then show ?case by (simp add: run.simps(1))
next
  case (2 files s raw ks)
  note ok = "2.prems"
  show ?case
  proof (cases "mask_key raw = key_a")
    case True
    then show ?thesis
      using ok "2.IH"(1,2) [OF refl True]
      by (auto simp: run.simps(2) Let_def split: prod.splits option.splits)
  next
    case na: False
    show ?thesis
    proof (cases "mask_key raw = key_n")
      case True
      then show ?thesis
        using ok na "2.IH"(3,4) [OF refl na True]
          turn_page_in_range [of files s "next_score (manager s)"]
        by (auto simp: run.simps(2) Let_def split: turn.splits)
    next
      case nn: False
      show ?thesis
      proof (cases "mask_key raw = key_p")
        case True
        then show ?thesis
          using ok na nn "2.IH"(5,6) [OF refl na nn True]
            turn_page_in_range [of files s "previous_score (manager s)"]
          by (auto simp: run.simps(2) Let_def split: turn.splits)
      next
        case np: False
        show ?thesis
          using ok na nn np "2.IH"(7) [OF refl na nn np] "2.IH"(8) [OF refl na nn np]
          by (simp add: run.simps(2) Let_def)
      qed
    qed
  qed
next
  case (3 files s ks)
  let ?r = "scan_outcome s ks"
  let ?s1 = "after_scan s ?r"
  have s1: "list_all step_in_range (trace ?s1)"
    using "3.prems" by (rule step_in_range_after_scan)
  have w: "step_duration (duration s) (num_steps page_width) = Inr (duration s / 1365)"
    by (simp add: scan_ev)
  show ?case
  proof (cases "scan_exit ?r = NoKey")
    case True
    then have "run files Scan s ks = (Waiting Scan, ?s1)"
      by (subst run_scan_unfold) (simp add: Let_def)
    then show ?thesis using s1 by simp
  next
    case nk: False
    show ?thesis
    proof (cases "scan_exit ?r = Finished \<and> has_next_score (manager ?s1)")
      case True
      have eq: "run files Scan s ks =
                  (case turn_page files ?s1 (next_score (manager ?s1)) of
                     Enter s0 \<Rightarrow> run files Display s0 (scan_rest ?r)
                   | Stay s2 \<Rightarrow> run files Scan s2 (scan_rest ?r)
                   | Stop out s2 \<Rightarrow> (out, s2))"
        using nk True by (subst run_scan_unfold) (simp add: Let_def)
      show ?thesis
      proof (cases "turn_page files ?s1 (next_score (manager ?s1))")
        case (Enter s0)
        then have "list_all step_in_range (trace s0)"
          using s1 turn_page_in_range by blast
        then show ?thesis
          using Enter eq "3.IH"(1) [OF w refl refl nk True Enter] by simp
      next
        case (Stay s2)
        then have "list_all step_in_range (trace s2)"
          using s1 turn_page_in_range by blast
        then show ?thesis
          using Stay eq "3.IH"(2) [OF w refl refl nk True Stay] by simp
      next
        case (Stop out s2)
        then have "list_all step_in_range (trace s2)"
          using s1 turn_page_in_range by blast
        then show ?thesis
          using Stop eq by simp
      qed
    next
      case False
      then have "run files Scan s ks = run files Display ?s1 (scan_rest ?r)"
        using nk by (subst run_scan_unfold) (auto simp: Let_def)
      then show ?thesis
        using s1 "3.IH"(3) [OF w refl refl nk False] by simp
    qed
  qed
qed

lemmas session_ev = scan_ev example_session_def example_store_def example_files_def
  apply_ops_def add_score_def init_manager_def store_analysis_def get_analysis_def
  has_next_score_def next_score_def previous_score_def get_current_score_def list_getitem_def
  main_entry_def turn_page_def scan_outcome_def after_scan_def run.simps

text \<open>
  C1: for a page at least as wide as the scan window, the number of steps is the page
  width minus the window width plus 1, which is positive (1365 for a width of 1424, the
  width of every page of a session); the scan starts inside \<open>[0, numSteps)\<close> in either
  direction; every offset at which a step is executed lies in \<open>[0, numSteps)\<close>,
  whatever the keys, the direction and the position the loop is entered with; a forward
  scan during which no key is pressed executes exactly \<open>numSteps\<close> steps, at the
  offsets \<open>0, \<dots>, numSteps - 1\<close> in this order; and a whole session adds to its
  trace only scan steps with offsets in \<open>[0, 1365)\<close>.
\<close>

theorem scan_offsets_in_range:
  "scan_width \<le> w \<Longrightarrow>
     num_steps w = w - scan_width + 1 \<and> 0 < num_steps w \<and>
     num_steps 1424 = 1365 \<and> num_steps page_width = 1365 \<and>
     0 \<le> start_position (num_steps w) reverse \<and>
     start_position (num_steps w) reverse < num_steps w \<and>
     list_all (\<lambda>offset. 0 \<le> offset \<and> offset < num_steps w)
       (scan_visited (scan_page (num_steps w) reverse pos ks)) \<and>
     scan_visited (scan_page (num_steps w) False (start_position (num_steps w) False)
                     (replicate (nat (num_steps w)) (- 1)))
       = map int [0..<nat (num_steps w)] \<and>
     (list_all step_in_range (trace s) \<longrightarrow>
        list_all step_in_range (trace (snd (run files m s ks))))"
proof -
  assume wide: "scan_width \<le> w"
  then have pos: "0 \<le> num_steps w" by (simp add: num_steps_def)
  have "scan_visited (scan_page (num_steps w) False 0 (replicate (nat (num_steps w)) (- 1) @ []))
          = map int [0..<nat (num_steps w)]"
    using pos by (subst full_forward_scan) simp_all
  then show ?thesis
    using wide run_steps_in_range [of s files m ks]
      scan_visited_in_range [of "num_steps w" reverse pos ks]
    by (simp add: start_position_def)
       (simp add: num_steps_def scan_width_def page_width_def)
qed

theorem scan_offsets_example:
  "scan_width \<le> 1424 \<and> num_steps 1424 = 1365 \<and>
   scan_visited (scan_page (num_steps 1424) False (start_position (num_steps 1424) False)
                   [-1, -1, 114, -1, -1, -1, -1]) = [0, 1, 2, 1, 0] \<and>
   list_all (\<lambda>offset. 0 \<le> offset \<and> offset < num_steps 1424)
     (scan_visited (scan_page (num_steps 1424) False (start_position (num_steps 1424) False)
                      [-1, -1, 114, -1, -1, -1, -1])) \<and>
   length (scan_visited (scan_page (num_steps 1424) False (start_position (num_steps 1424) False)
                           (replicate (nat (num_steps 1424)) (- 1)))) = 1365 \<and>
   list_all step_in_range (trace example_session) \<and>
   list_all step_in_range
     (trace (snd (run example_files Display example_session [98, -1, -1, 114, -1])))"
  using scan_offsets_in_range [where w = 1424 and reverse = False
          and pos = "start_position (num_steps 1424) False"
          and ks = "[-1, -1, 114, -1, -1, -1, -1]"]
    scan_offsets_in_range [where w = 1424 and s = example_session and files = example_files
          and m = Display and ks = "[98, -1, -1, 114, -1]"]
  by (simp add: scan_ev example_session_def)

lemma blank_path_session_entry:
  "main_entry example_files blank_path_store ''a.png'' 10 [] = Some blank_path_session"
  by (simp add: main_entry_def example_files_def blank_path_store_def blank_path_session_def
      apply_ops_def add_score_def init_manager_def get_analysis_def store_analysis_def Let_def)

lemma scan_end_blank_path:
  assumes fin: "scan_exit (scan_outcome s ks) = Finished"
    and nxt: "has_next_score (manager s)"
    and page: "fst (next_score (manager s)) = Inr (Some ([], d))"
  shows "run files Scan s ks =
           run files Scan
             ((after_scan s (scan_outcome s ks))
                \<lparr>manager := snd (next_score (manager s)), duration := d\<rparr>)
             (scan_rest (scan_outcome s ks))"
proof -
  have m1: "manager (after_scan s (scan_outcome s ks)) = manager s"
    by (simp add: after_scan_def)
  obtain res m where nm: "next_score (manager s) = (res, m)" by (cases "next_score (manager s)")
  with page have res: "res = Inr (Some ([], d))" by simp
  show ?thesis
    using fin nxt nm res m1
    by (subst run_scan_unfold) (simp add: Let_def turn_page_def)
qed

text \<open>
  C4, as the code has it. A scan whose position is outside \<open>[0, numSteps)\<close> executes
  no further step and ends. When the scan of a page has ended that way and
  \<^verbatim>\<open>has_next_score\<close> holds, the cursor moves to the next page; if the path of that page
  is not empty, main is entered again for it, which ends the session when the image
  cannot be read and otherwise starts the display loop of the new page, in forward
  direction at position 0 and without scanning; if the path is empty, main is not
  entered and the scanning loop starts again at once on the raster already loaded, with
  the duration of the next page. When \<^verbatim>\<open>has_next_score\<close> does not hold, the session
  goes back to the display loop of the current page. In the display loop no scan step
  is executed as long as the scan key \<^verbatim>\<open>b\<close> is not pressed.
\<close>

theorem scan_end_transition:
  "(\<not> (0 \<le> pos \<and> pos < n) \<longrightarrow>
      scan_page n reverse pos ks' =
        \<lparr>scan_exit = Finished, scan_reverse = reverse, scan_position = pos,
         scan_visited = [], scan_rest = ks'\<rparr>) \<and>
   (scan_exit (scan_outcome s ks) = Finished \<longrightarrow>
      \<not> (0 \<le> scan_position (scan_outcome s ks)
         \<and> scan_position (scan_outcome s ks) < num_steps page_width) \<and>
      (has_next_score (manager s) \<and> fst (next_score (manager s)) = Inr (Some (path, d))
         \<and> path \<noteq> [] \<longrightarrow>
         (case main_entry files (snd (next_score (manager s))) path d
                 (trace (after_scan s (scan_outcome s ks))) of
            None \<Rightarrow> files path = None \<and> fst (run files Scan s ks) = LoadFailed
          | Some s0 \<Rightarrow>
              files path \<noteq> None \<and>
              run files Scan s ks = run files Display s0 (scan_rest (scan_outcome s ks)) \<and>
              \<not> reverse_scan s0 \<and> current_position s0 = 0 \<and> duration s0 = d \<and>
              current_page s0
                = (current_index (manager s) + 1) mod int (length (scores (manager s))) \<and>
              trace s0 = trace s
                @ map (ScanStep (current_page s)) (scan_visited (scan_outcome s ks))
                @ [PageOpened (current_page s0)])) \<and>
      (has_next_score (manager s) \<and> fst (next_score (manager s)) = Inr (Some ([], d)) \<longrightarrow>
         run files Scan s ks =
           run files Scan
             ((after_scan s (scan_outcome s ks))
                \<lparr>manager := snd (next_score (manager s)), duration := d\<rparr>)
             (scan_rest (scan_outcome s ks))) \<and>
      (\<not> has_next_score (manager s) \<longrightarrow>
         run files Scan s ks
           = run files Display (after_scan s (scan_outcome s ks))
               (scan_rest (scan_outcome s ks)))) \<and>
   (list_all (\<lambda>raw. mask_key raw \<noteq> key_b) ks' \<longrightarrow>
      scan_steps (trace (snd (run files Display s' ks'))) = scan_steps (trace s'))"
  using scan_page_out_of_range [of pos n reverse ks']
    scan_page_finished [of "num_steps page_width" "reverse_scan s"
      "start_position (num_steps page_width) (reverse_scan s)" ks]
    scan_end_next_page [of s ks path d files]
    scan_end_blank_path [of s ks d files]
    scan_end_idle [of s ks files]
    display_without_scan_key [of ks' files s']
  by (simp add: scan_outcome_def)

theorem scan_end_transition_example:
  "scan_exit (scan_outcome example_session [114, -1, -1]) = Finished \<and>
   scan_position (scan_outcome example_session [114, -1, -1]) = - 1 \<and>
   has_next_score (manager example_session) \<and>
   fst (next_score (manager example_session)) = Inr (Some (''b.png'', 20)) \<and>
   example_files ''b.png'' \<noteq> None \<and>
   fst (run example_files Scan example_session [114, -1, -1]) = Waiting Display \<and>
   trace (snd (run example_files Scan example_session [114, -1, -1]))
     = [PageOpened 0, ScanStep 0 0, PageOpened 1] \<and>
   scan_exit (scan_outcome blank_path_session [114, -1, -1]) = Finished \<and>
   has_next_score (manager blank_path_session) \<and>
   fst (next_score (manager blank_path_session)) = Inr (Some ([], 20)) \<and>
   fst (run example_files Scan blank_path_session [114, -1, -1]) = Waiting Scan \<and>
   trace (snd (run example_files Scan blank_path_session [114, -1, -1]))
     = [PageOpened 0, ScanStep 0 0, ScanStep 0 1364, ScanStep 0 1363] \<and>
   duration (snd (run example_files Scan blank_path_session [114, -1, -1])) = 20 \<and>
   scan_exit (scan_outcome last_page_session [114, -1]) = Finished \<and>
   \<not> has_next_score (manager last_page_session) \<and>
   fst (run example_files Scan last_page_session [114, -1]) = Waiting Display \<and>
   trace (snd (run example_files Scan last_page_session [114, -1]))
     = [PageOpened 0, PageOpened 1, ScanStep 1 0] \<and>
   list_all (\<lambda>raw. mask_key raw \<noteq> key_b) [-1, 97, 110, -1] \<and>
   scan_steps (trace (snd (run example_files Display example_session [-1, 97, 110, -1]))) = []"
  using scan_end_transition [where s = example_session and ks = "[114, -1, -1]"
          and path = "''b.png''" and d = 20 and files = example_files
          and pos = "-1" and n = 1365 and reverse = True and ks' = "[-1, 97, 110, -1]"
          and s' = example_session]
    scan_end_transition [where s = blank_path_session and ks = "[114, -1, -1]"
          and d = 20 and files = example_files]
    scan_end_transition [where s = last_page_session and ks = "[114, -1]"
          and files = example_files]
  by (simp add: session_ev last_page_session_def blank_path_session_def blank_path_store_def
        analyze_all_pages_def)

text \<open>
  C4 as stated does not hold: the scan of the first of two pages ends (the key \<^verbatim>\<open>r\<close>
  at offset 0 takes the position to \<open>-1\<close>), \<^verbatim>\<open>has_next_score\<close> holds and the second
  page is opened, but the two polls that follow execute no scan step on it: the session
  is in the display loop of the second page, where a scan needs the key \<^verbatim>\<open>b\<close>.
\<close>

theorem next_page_not_scanned:
  "has_next_score (manager example_session) \<and>
   scan_exit (scan_outcome example_session [114, -1, -1]) = Finished \<and>
   fst (run example_files Display example_session [98, 114, -1, -1]) = Waiting Display \<and>
   trace (snd (run example_files Display example_session [98, 114, -1, -1]))
     = [PageOpened 0, ScanStep 0 0, PageOpened 1] \<and>
   current_page (snd (run example_files Display example_session [98, 114, -1, -1])) = 1"
  by (simp add: session_ev)










end
